theory Spec2Isabelle
  imports Main
begin

text \<open>
  A model of the bulk mailer. The repository holds three variants of one script:
  sendEmails.js, which this theory follows; a variant without throttle and concurrency,
  whose \<open>replaceTokens\<close> differs (part_000); and a variant that parses the two
  settings with \<open>parseInt\<close> and reports the resolved values of a batch (part_001).
  \<open>getCsvInfo\<close>, \<open>sendOneEmail\<close> and the template check are the same in all
  three.
\<close>

section \<open>JavaScript values and array helpers\<close>

text \<open>
  Exceptions of the program: \<open>TypeError\<close> is the runtime's own (reading a property of
  \<open>null\<close> or \<open>undefined\<close>, spreading \<open>undefined\<close>); \<open>Error msg\<close> is
  \<open>throw new Error(msg)\<close>; \<open>LibraryError\<close> is an exception thrown by a collaborator
  (the CSV parser, the mail provider).
\<close>

datatype error = TypeError | Error string | LibraryError

text \<open>
  \<open>Array.prototype.indexOf\<close> and the core of \<open>Buffer.indexOf\<close>: the position of the
  first element equal to \<open>v\<close>, or \<open>-1\<close>.
\<close>

fun index_of :: "'a list \<Rightarrow> 'a \<Rightarrow> int" where
  "index_of [] v = -1"
| "index_of (x # xs) v =
     (if x = v then 0 else (let r = index_of xs v in if r = -1 then -1 else r + 1))"

text \<open>
  \<open>slice(start, end)\<close> of a Buffer or a String: a negative bound counts from the end,
  and both bounds are clamped to the length.
\<close>

definition js_slice :: "'a list \<Rightarrow> int \<Rightarrow> int \<Rightarrow> 'a list" where
  "js_slice xs start end' =
     (let n = int (length xs);
          s = (if start < 0 then max 0 (n + start) else min start n);
          e = (if end' < 0 then max 0 (n + end') else min end' n)
      in take (nat (e - s)) (drop (nat s) xs))"

text \<open>\<open>xs[k]\<close> for a numeric index: \<open>None\<close> is \<open>undefined\<close>.\<close>

definition js_nth :: "'a list \<Rightarrow> int \<Rightarrow> 'a option" where
  "js_nth xs k = (if 0 \<le> k \<and> k < int (length xs) then Some (xs ! nat k) else None)"

section \<open>The record-set scanner: getCsvInfo\<close>

text \<open>A Buffer is its bytes; byte 10 is the line feed.\<close>

definition newline :: char where
  "newline = CHR 0x0A"

text \<open>
  \<open>buffer.indexOf(value, byteOffset)\<close>: a negative offset counts from the end of the
  buffer; an offset at or beyond the length finds nothing.
\<close>

definition buffer_indexOf :: "string \<Rightarrow> char \<Rightarrow> int \<Rightarrow> int" where
  "buffer_indexOf buf v byteOffset =
     (let off = (if byteOffset < 0 then max 0 (int (length buf) + byteOffset) else byteOffset);
          r = index_of (drop (nat off) buf) v
      in if r = -1 then -1 else off + r)"

lemma index_of_range: "index_of xs v = -1 \<or> (0 \<le> index_of xs v \<and> index_of xs v < int (length xs))"
  by (induction xs) (auto simp: Let_def)

lemma index_of_none: "(index_of xs v = -1) = (v \<notin> set xs)"
proof (induction xs)
  case Nil
  show ?case by simp
next
  case (Cons x xs)
  have "index_of xs v = -1 \<or> 0 \<le> index_of xs v"
    using index_of_range [of xs v] by auto
  with Cons show ?case by (auto simp: Let_def)
qed

lemma buffer_indexOf_found:
  assumes "buffer_indexOf buf v off \<noteq> -1"
  shows "max 0 off \<le> buffer_indexOf buf v off \<and> buffer_indexOf buf v off < int (length buf)"
proof -
  define o' where "o' = (if off < 0 then max 0 (int (length buf) + off) else off)"
  define r where "r = index_of (drop (nat o') buf) v"
  have b: "buffer_indexOf buf v off = (if r = -1 then -1 else o' + r)"
    by (simp add: buffer_indexOf_def Let_def o'_def r_def)
  with assms have rn: "r \<noteq> -1" by auto
  with index_of_range [of "drop (nat o') buf" v]
  have rr: "0 \<le> r" "r < int (length (drop (nat o') buf))" by (auto simp: r_def)
  have o0: "0 \<le> o'" "max 0 off \<le> o'" by (auto simp: o'_def)
  from rr o0 have "o' + r < int (length buf)" by auto
  with b rn rr o0 show ?thesis by auto
qed

text \<open>
  The counting loop of the \<open>data\<close> handler:
  \<^verbatim>\<open>do { idx = buffer.indexOf(10, idx + 1); recordCount++; } while (idx !== -1);\<close>
\<close>

function count_loop :: "string \<Rightarrow> int \<Rightarrow> int \<Rightarrow> int" where
  "count_loop buffer idx recordCount =
     (let idx' = buffer_indexOf buffer newline (idx + 1);
          recordCount' = recordCount + 1
      in if idx' \<noteq> -1 then count_loop buffer idx' recordCount' else recordCount')"
  by pat_completeness auto
termination
proof (relation "measure (\<lambda>(buffer, idx, recordCount). length buffer - nat (idx + 1))")
  show "wf (measure (\<lambda>(buffer, idx, recordCount). length buffer - nat (idx + 1)))" by simp
next
  fix buffer :: string and idx recordCount x xa :: int
  assume x: "x = buffer_indexOf buffer newline (idx + 1)" and ne: "x \<noteq> - 1"
  from buffer_indexOf_found [of buffer newline "idx + 1"] x ne
  have "max 0 (idx + 1) \<le> x" "x < int (length buffer)" by auto
  then show "((buffer, x, xa), (buffer, idx, recordCount))
      \<in> measure (\<lambda>(buffer, idx, recordCount). length buffer - nat (idx + 1))"
    by auto
qed

declare count_loop.simps [simp del]

text \<open>
  The state the handlers share, and the value the promise resolves with.
\<close>

record csv_info =
  columnNames :: "string list"
  recordCount :: int

text \<open>
  The \<open>data\<close> handler. \<open>parse\<close> is csv-parse's synchronous parser, a collaborator taken
  as a parameter: it returns the records of a text or throws. \<open>parse(headerRow)[0]\<close> is
  \<open>undefined\<close> when the parser returns no record, and spreading \<open>undefined\<close> into
  \<open>push\<close> throws a TypeError.
\<close>

definition on_data :: "(string \<Rightarrow> error + string list list) \<Rightarrow> string \<Rightarrow> csv_info \<Rightarrow> error + csv_info" where
  "on_data parse buffer st =
     (case (if columnNames st = [] then
              (let headerRow = js_slice buffer 0 (buffer_indexOf buffer newline 0)
               in case parse headerRow of
                    Inl e \<Rightarrow> Inl e
                  | Inr [] \<Rightarrow> Inl TypeError
                  | Inr (r # rs) \<Rightarrow> Inr (columnNames st @ r))
            else Inr (columnNames st)) of
        Inl e \<Rightarrow> Inl e
      | Inr cols \<Rightarrow>
          Inr \<lparr>columnNames = cols,
               recordCount = count_loop buffer (-1) (recordCount st - 1)\<rparr>)"

fun on_chunks :: "(string \<Rightarrow> error + string list list) \<Rightarrow> string list \<Rightarrow> csv_info \<Rightarrow> error + csv_info" where
  "on_chunks parse [] st = Inr st"
| "on_chunks parse (buffer # rest) st =
     (case on_data parse buffer st of Inl e \<Rightarrow> Inl e | Inr st' \<Rightarrow> on_chunks parse rest st')"

text \<open>
  \<open>getCsvInfo\<close> over the chunks the read stream delivers, in order, followed by its
  \<open>end\<close> event (the stream's \<open>error\<close> event, which rejects the promise, is not part of
  this model). An exception thrown inside the \<open>data\<close> handler is the \<open>Inl\<close> result.
\<close>

definition getCsvInfo :: "(string \<Rightarrow> error + string list list) \<Rightarrow> string list \<Rightarrow> error + csv_info" where
  "getCsvInfo parse chunks =
     (case on_chunks parse chunks \<lparr>columnNames = [], recordCount = 0\<rparr> of
        Inl e \<Rightarrow> Inl e
      | Inr st \<Rightarrow> Inr \<lparr>columnNames = columnNames st, recordCount = recordCount st - 1\<rparr>)"

text \<open>
  A model of csv-parse's \<open>parse(text)\<close> with its default options, for text that has no
  quote character, no carriage return and no empty line, and whose lines have the same
  number of fields: records are the lines, fields are separated by commas, a line feed
  at the very end opens no further record, and the empty text has no record.
\<close>

fun split_on :: "char \<Rightarrow> string \<Rightarrow> string list" where
  "split_on d [] = [[]]"
| "split_on d (c # cs) =
     (if c = d then [] # split_on d cs
      else (case split_on d cs of [] \<Rightarrow> [[c]] | w # ws \<Rightarrow> (c # w) # ws))"

definition csv_parse :: "string \<Rightarrow> error + string list list" where
  "csv_parse s =
     (let ls = split_on newline s;
          ls' = (if last ls = [] then butlast ls else ls)
      in Inr (map (split_on CHR '','') ls'))"

section \<open>The token engine\<close>

text \<open>The character class \<open>[a-zA-Z0-9_]\<close>.\<close>

definition word_char :: "char \<Rightarrow> bool" where
  "word_char c =
     (let n = (of_char c :: nat)
      in (97 \<le> n \<and> n \<le> 122) \<or> (65 \<le> n \<and> n \<le> 90) \<or> (48 \<le> n \<and> n \<le> 57) \<or> n = 95)"

text \<open>
  A match of \<open>/@[a-zA-Z0-9_]*@/\<close> that starts at the head of the text: the matched
  text and what follows it. The star is greedy, and giving characters back cannot help,
  since the character after a shorter run is a word character and not \<open>@\<close>.
\<close>

definition token_at :: "string \<Rightarrow> (string \<times> string) option" where
  "token_at s =
     (case s of
        [] \<Rightarrow> None
      | c # cs \<Rightarrow>
          if c = CHR ''@'' then
            (case dropWhile word_char cs of
               [] \<Rightarrow> None
             | d # rest \<Rightarrow>
                 if d = CHR ''@'' then Some (c # takeWhile word_char cs @ [d], rest) else None)
          else None)"

lemma token_at_shorter: "token_at s = Some (m, rest) \<Longrightarrow> length rest < length s"
proof -
  assume a: "token_at s = Some (m, rest)"
  then obtain c cs where s: "s = c # cs" by (cases s) (auto simp: token_at_def)
  with a obtain d where "dropWhile word_char cs = d # rest"
    by (auto simp: token_at_def split: if_splits list.splits)
  then have "length (dropWhile word_char cs) = Suc (length rest)" by simp
  moreover have "length (dropWhile word_char cs) \<le> length cs" by (rule length_dropWhile_le)
  ultimately show ?thesis using s by simp
qed

text \<open>
  The matches a global regular expression finds, left to right: after a match the scan
  goes on behind it, otherwise one character further.
\<close>

function scan_tokens :: "string \<Rightarrow> string list" where
  "scan_tokens [] = []"
| "scan_tokens (c # cs) =
     (case token_at (c # cs) of
        Some (m, rest) \<Rightarrow> m # scan_tokens rest
      | None \<Rightarrow> scan_tokens cs)"
  by pat_completeness auto
termination
  by (relation "measure length") (auto dest: token_at_shorter)

text \<open>\<open>text.match(/@[a-zA-Z0-9_]*@/g)\<close>: the array of matches, or \<open>null\<close> (\<open>None\<close>) when there is none.\<close>

definition js_match :: "string \<Rightarrow> string list option" where
  "js_match s = (case scan_tokens s of [] \<Rightarrow> None | m # ms \<Rightarrow> Some (m # ms))"

text \<open>
  \<open>text.replace(/@[a-zA-Z0-9_]*@/g, f)\<close>: every match is replaced by what \<open>f\<close> returns
  for it; the replacement is not scanned again.
\<close>

function js_replace :: "(string \<Rightarrow> string) \<Rightarrow> string \<Rightarrow> string" where
  "js_replace f [] = []"
| "js_replace f (c # cs) =
     (case token_at (c # cs) of
        Some (m, rest) \<Rightarrow> f m @ js_replace f rest
      | None \<Rightarrow> c # js_replace f cs)"
  by pat_completeness auto
termination
  by (relation "measure (\<lambda>(f, s). length s)") (auto dest: token_at_shorter)

text \<open>
  \<open>replaceTokens\<close> of sendEmails.js:
  \<^verbatim>\<open>(match) => values[keys.indexOf(match.slice(1, -1))] || match\<close>.
  The values are strings; \<open>||\<close> takes its right side when the left is \<open>undefined\<close> or
  the empty string.
\<close>

definition replaceTokens :: "string \<Rightarrow> string list \<Rightarrow> string list \<Rightarrow> string" where
  "replaceTokens input keys vals =
     js_replace
       (\<lambda>m. case js_nth vals (index_of keys (js_slice m 1 (-1))) of
               None \<Rightarrow> m
             | Some v \<Rightarrow> if v = [] then m else v)
       input"

text \<open>
  \<open>replaceTokens\<close> of the variant part_000, without the \<open>|| match\<close>: the
  value \<open>undefined\<close> a replacement function returns is inserted as the text
  \<open>undefined\<close>.
\<close>

definition replaceTokens_part_000 :: "string \<Rightarrow> string list \<Rightarrow> string list \<Rightarrow> string" where
  "replaceTokens_part_000 input keys vals =
     js_replace
       (\<lambda>m. case js_nth vals (index_of keys (js_slice m 1 (-1))) of
               None \<Rightarrow> ''undefined''
             | Some v \<Rightarrow> v)
       input"

text \<open>\<open>xs.join(sep)\<close>.\<close>

fun js_join :: "string \<Rightarrow> string list \<Rightarrow> string" where
  "js_join sep [] = []"
| "js_join sep [x] = x"
| "js_join sep (x # y # ys) = x @ sep @ js_join sep (y # ys)"

text \<open>
  The template check of \<open>init\<close>: the tokens of subject line plus template are split
  into the used and the unavailable ones, and a non-empty list of unavailable ones is
  thrown as an \<open>Error\<close> whose message lists them all. \<open>forEach\<close> on the \<open>null\<close> that
  \<open>match\<close> returns for a text without a token throws a TypeError.
\<close>

definition token_available :: "string list \<Rightarrow> string \<Rightarrow> bool" where
  "token_available cols tokenName = (index_of cols (js_slice tokenName 1 (-1)) \<noteq> -1)"

definition unavailable_message :: "string list \<Rightarrow> string" where
  "unavailable_message unavailableTokens =
     ''Some tokens used in the template file or subject line are not available in the CSV: ''
       @ js_join '', '' unavailableTokens"

definition check_template :: "string \<Rightarrow> string \<Rightarrow> string list \<Rightarrow> error + string list" where
  "check_template subjectLine templateFileContents cols =
     (case js_match (subjectLine @ templateFileContents) of
        None \<Rightarrow> Inl TypeError
      | Some tokensFoundInTemplate \<Rightarrow>
          (let unavailableTokens = filter (\<lambda>t. \<not> token_available cols t) tokensFoundInTemplate;
               usedTokens = filter (token_available cols) tokensFoundInTemplate
           in if unavailableTokens \<noteq> [] then Inl (Error (unavailable_message unavailableTokens))
              else Inr usedTokens))"

section \<open>Sending one message\<close>

text \<open>The message object handed to the provider's \<open>send\<close>.\<close>

record message =
  msg_to :: "string option list"
  msg_from_email :: string
  msg_from_name :: string
  msg_subject :: string
  msg_text :: string
  msg_html :: string

text \<open>
  What \<open>await sendgridMail.send(messageObject)\<close> does: it throws, or it resolves
  with a pair whose first component is the response (\<open>None\<close> when it is not an object)
  and whose second component the code names \<open>reject\<close> (here: whether it is truthy).
\<close>

record response =
  statusCode :: int
  headers :: "(string \<times> string) list"

datatype send_result = Throws | Resolves "response option" bool

text \<open>
  The value \<open>sendOneEmail\<close> resolves with: \<open>false\<close>, or the header
  \<open>x-message-id\<close>, which is a string or \<open>undefined\<close>.
\<close>

datatype js_result = JFalse | JUndefined | JText string

record email_config =
  cfg_from :: string
  cfg_fromName :: string
  cfg_to :: "string option"
  cfg_subject :: string
  cfg_htmlMessage :: string
  cfg_plaintextMessage :: "string option"

text \<open>
  \<open>html-to-text\<close>'s converter is a collaborator, taken as a parameter: a function
  that returns a text for every text. The field \<open>text\<close> is
  \<open>plaintextMessage || htmlToText(htmlMessage)\<close>.
\<close>

definition messageObject :: "(string \<Rightarrow> string) \<Rightarrow> email_config \<Rightarrow> message" where
  "messageObject htmlToText config =
     \<lparr>msg_to = [cfg_to config],
      msg_from_email = cfg_from config,
      msg_from_name = cfg_fromName config,
      msg_subject = cfg_subject config,
      msg_text = (case cfg_plaintextMessage config of
                    None \<Rightarrow> htmlToText (cfg_htmlMessage config)
                  | Some p \<Rightarrow> if p = [] then htmlToText (cfg_htmlMessage config) else p),
      msg_html = cfg_htmlMessage config\<rparr>"

definition message_id :: "response \<Rightarrow> js_result" where
  "message_id resp =
     (case map_of (headers resp) ''x-message-id'' of None \<Rightarrow> JUndefined | Some v \<Rightarrow> JText v)"

text \<open>
  The body of the \<open>try\<close> block: the provider's exception passes through, and reading
  \<open>statusCode\<close> of a response that is not an object throws a TypeError.
\<close>

definition send_try :: "send_result \<Rightarrow> error + js_result" where
  "send_try r =
     (case r of
        Throws \<Rightarrow> Inl LibraryError
      | Resolves resp reject \<Rightarrow>
          if reject then Inr JFalse
          else (case resp of
                  None \<Rightarrow> Inl TypeError
                | Some rp \<Rightarrow> if statusCode rp \<noteq> 202 then Inr JFalse else Inr (message_id rp)))"

text \<open>\<open>sendOneEmail\<close>: the \<open>catch\<close> turns every exception of the block into \<open>false\<close>.\<close>

definition sendOneEmail ::
    "(message \<Rightarrow> send_result) \<Rightarrow> (string \<Rightarrow> string) \<Rightarrow> email_config \<Rightarrow> error + js_result" where
  "sendOneEmail send htmlToText config =
     (case send_try (send (messageObject htmlToText config)) of
        Inl e \<Rightarrow> Inr JFalse
      | Inr v \<Rightarrow> Inr v)"

section \<open>Numbers and strings in the dispatch loop\<close>

text \<open>
  The values the loop variables take: a number, or a string (every value that
  \<open>dotenv.parse\<close> reads from the config file is a string). A number is an integer
  here. JavaScript's numbers are doubles: they add and compare integers exactly up to
  \<open>2^53\<close>, and \<open>j++\<close> no longer changes a \<open>j\<close> that has reached it. The loops of
  this model are the program's for counts and settings within that bound.
\<close>

datatype jsval = JNum int | JStr string

definition max_safe :: int where
  "max_safe = 9007199254740992"

definition digit_char :: "char \<Rightarrow> bool" where
  "digit_char c = (48 \<le> (of_char c :: nat) \<and> (of_char c :: nat) \<le> 57)"

definition decimal :: "string \<Rightarrow> nat" where
  "decimal s = foldl (\<lambda>a c. 10 * a + ((of_char c :: nat) - 48)) 0 s"

fun nat_digits :: "nat \<Rightarrow> string" where
  "nat_digits n =
     (if n < 10 then [char_of (n + 48)]
      else nat_digits (n div 10) @ [char_of (n mod 10 + 48)])"

declare nat_digits.simps [simp del]

definition num_to_string :: "int \<Rightarrow> string" where
  "num_to_string n = (if n < 0 then CHR ''-'' # nat_digits (nat (- n)) else nat_digits (nat n))"

definition to_string :: "jsval \<Rightarrow> string" where
  "to_string v = (case v of JNum n \<Rightarrow> num_to_string n | JStr s \<Rightarrow> s)"

text \<open>
  The conversion to a number that \<open><=\<close> and \<open><\<close> apply to a string operand, on the
  strings of decimal digits (the empty string converts to 0); \<open>None\<close> is \<open>NaN\<close>.
  Every other string is taken as \<open>NaN\<close> here: signs, fractions, exponents, radix
  prefixes and surrounding white space, which JavaScript also converts, are outside
  this model.
\<close>

definition to_number :: "jsval \<Rightarrow> int option" where
  "to_number v =
     (case v of
        JNum n \<Rightarrow> Some n
      | JStr s \<Rightarrow> if list_all digit_char s then Some (int (decimal s)) else None)"

text \<open>\<open>a + b\<close>: the sum of two numbers, otherwise the concatenation of the two as strings.\<close>

definition js_add :: "jsval \<Rightarrow> jsval \<Rightarrow> jsval" where
  "js_add a b =
     (case (a, b) of
        (JNum x, JNum y) \<Rightarrow> JNum (x + y)
      | _ \<Rightarrow> JStr (to_string a @ to_string b))"

text \<open>\<open>i <= n\<close> and \<open>j < c\<close> with a number on one side: a comparison with \<open>NaN\<close> is false.\<close>

definition js_le_num :: "jsval \<Rightarrow> int \<Rightarrow> bool" where
  "js_le_num i n = (case to_number i of None \<Rightarrow> False | Some x \<Rightarrow> x \<le> n)"

definition js_num_lt :: "int \<Rightarrow> jsval \<Rightarrow> bool" where
  "js_num_lt j c = (case to_number c of None \<Rightarrow> False | Some x \<Rightarrow> j < x)"

definition js_truthy :: "jsval \<Rightarrow> bool" where
  "js_truthy v = (case v of JNum n \<Rightarrow> n \<noteq> 0 | JStr s \<Rightarrow> s \<noteq> [])"

text \<open>
  \<open>xs[key]\<close>: a string key reads an element only when it is the canonical decimal
  form of an index; any other key reads \<open>undefined\<close>.
\<close>

definition js_index :: "'a list \<Rightarrow> jsval \<Rightarrow> 'a option" where
  "js_index xs key =
     (case key of
        JNum k \<Rightarrow> js_nth xs k
      | JStr s \<Rightarrow>
          if s \<noteq> [] \<and> list_all digit_char s \<and> nat_digits (decimal s) = s
          then js_nth xs (int (decimal s)) else None)"

text \<open>\<open>config.KEY || dflt\<close>: the default replaces a missing or empty value.\<close>

definition or_default :: "string option \<Rightarrow> int \<Rightarrow> jsval" where
  "or_default v dflt = (case v of None \<Rightarrow> JNum dflt | Some s \<Rightarrow> if s = [] then JNum dflt else JStr s)"

section \<open>The dispatch loop\<close>

text \<open>
  What a run does, in order: an iteration of the batch loop begins, the throttle delay,
  a call of the provider's \<open>send\<close>, and the two report lines (position, total,
  address and, for a delivered message, the id that is printed).
\<close>

datatype event =
    BatchStart
  | Throttled jsval
  | Sent message
  | LogDelivered jsval int "string option" string
  | LogFailed jsval int "string option"

text \<open>
  What the loop reads. \<open>throttle\<close> and \<open>concurrency\<close> are of type \<open>'n\<close>: a number
  or a string in sendEmails.js, a number in the variant that parses them (part_001).
\<close>

record 'n dispatch_env =
  throttle :: 'n
  concurrency :: 'n
  info :: csv_info
  emailColumnIndex :: int
  csvFileContents :: "string list list"
  subjectLine :: string
  fromName :: string
  fromAddress :: string
  templateFileContents :: string
  env_send :: "message \<Rightarrow> send_result"
  env_htmlToText :: "string \<Rightarrow> string"

text \<open>The argument of \<open>sendOneEmail\<close> for one record.\<close>

definition record_email :: "'n dispatch_env \<Rightarrow> string list \<Rightarrow> email_config" where
  "record_email env currentRecord =
     \<lparr>cfg_from = fromAddress env,
      cfg_fromName = fromName env,
      cfg_to = js_nth currentRecord (emailColumnIndex env),
      cfg_subject = replaceTokens (subjectLine env) (columnNames (info env)) currentRecord,
      cfg_htmlMessage = replaceTokens (templateFileContents env) (columnNames (info env)) currentRecord,
      cfg_plaintextMessage = None\<rparr>"

text \<open>\<open>Promise.all\<close>: the resolved values, or the first rejection.\<close>

fun promise_all :: "(error + 'a) list \<Rightarrow> error + 'a list" where
  "promise_all [] = Inr []"
| "promise_all (Inl e # ps) = Inl e"
| "promise_all (Inr v # ps) = (case promise_all ps of Inl e \<Rightarrow> Inl e | Inr vs \<Rightarrow> Inr (v # vs))"

text \<open>
  One report line: \<open>if (value) log(delivered, ID: value) else log(failed)\<close>, given
  whether \<open>value\<close> is truthy and how it prints.
\<close>

definition report_line :: "jsval \<Rightarrow> int \<Rightarrow> string option \<Rightarrow> bool \<Rightarrow> string \<Rightarrow> event" where
  "report_line pos n address truthy shown =
     (if truthy then LogDelivered pos n address shown else LogFailed pos n address)"

definition result_truthy :: "js_result \<Rightarrow> bool" where
  "result_truthy v = (case v of JText s \<Rightarrow> s \<noteq> [] | _ \<Rightarrow> False)"

definition result_shown :: "js_result \<Rightarrow> string" where
  "result_shown v = (case v of JFalse \<Rightarrow> ''false'' | JUndefined \<Rightarrow> ''undefined'' | JText s \<Rightarrow> s)"

text \<open>\<open>addressArray[index]\<close>, where the elements themselves may be \<open>undefined\<close>.\<close>

definition address_at :: "string option list \<Rightarrow> nat \<Rightarrow> string option" where
  "address_at addressArray index =
     (case js_nth addressArray (int index) of None \<Rightarrow> None | Some a \<Rightarrow> a)"

subsection \<open>sendEmails.js\<close>

text \<open>
  The inner loop
  \<^verbatim>\<open>for (let j = 0; j < concurrency; j++) { const currentRecord = csvFileContents[i + j]; if (currentRecord) ... }\<close>:
  the records it finds, in order.
\<close>

function batch_records :: "string list list \<Rightarrow> jsval \<Rightarrow> jsval \<Rightarrow> int \<Rightarrow> string list list" where
  "batch_records csv c i j =
     (if js_num_lt j c then
        (case js_index csv (js_add i (JNum j)) of
           None \<Rightarrow> batch_records csv c i (j + 1)
         | Some currentRecord \<Rightarrow> currentRecord # batch_records csv c i (j + 1))
      else [])"
  by pat_completeness auto
termination
  by (relation "measure (\<lambda>(csv, c, i, j). case to_number c of None \<Rightarrow> 0 | Some x \<Rightarrow> nat (x - j))")
    (auto simp: js_num_lt_def split: option.splits)

declare batch_records.simps [simp del]

text \<open>
  One iteration of the batch loop. The report walks \<open>responseArray\<close>, whose elements
  are the promises \<open>sendOneEmail\<close> returned: a promise is an object, so it is truthy
  and prints as \<open>[object Promise]\<close>.
\<close>

definition run_batch :: "jsval dispatch_env \<Rightarrow> jsval \<Rightarrow> event list \<times> error option" where
  "run_batch env i =
     (let records = batch_records (csvFileContents env) (concurrency env) i 0;
          addressArray = map (\<lambda>r. js_nth r (emailColumnIndex env)) records;
          configs = map (record_email env) records;
          responseArray = map (sendOneEmail (env_send env) (env_htmlToText env)) configs;
          started = BatchStart
            # (if js_truthy (throttle env) then [Throttled (throttle env)] else [])
            @ map (\<lambda>c. Sent (messageObject (env_htmlToText env) c)) configs
      in case promise_all responseArray of
           Inl e \<Rightarrow> (started, Some e)
         | Inr resolved \<Rightarrow>
             (started @
              map (\<lambda>index.
                     report_line (js_add i (JNum (int index))) (recordCount (info env))
                       (address_at addressArray index) True ''[object Promise]'')
                [0 ..< length responseArray],
              None))"

text \<open>
  \<^verbatim>\<open>for (let i = 1; i <= recordCount; i += concurrency)\<close>, from a value of \<open>i\<close> on.
  The result is \<open>None\<close> when the loop does not end.
\<close>

partial_function (option) send_loop ::
    "jsval dispatch_env \<Rightarrow> jsval \<Rightarrow> event list \<Rightarrow> (event list \<times> error option) option" where
  "send_loop env i evs =
     (if js_le_num i (recordCount (info env)) then
        (case run_batch env i of
           (bevs, Some e) \<Rightarrow> Some (evs @ bevs, Some e)
         | (bevs, None) \<Rightarrow> send_loop env (js_add i (concurrency env)) (evs @ bevs))
      else Some (evs, None))"

declare send_loop.simps [code]

subsection \<open>The variant that parses the settings (part_001)\<close>

function batch_records_part_001 :: "string list list \<Rightarrow> int \<Rightarrow> int \<Rightarrow> int \<Rightarrow> string list list" where
  "batch_records_part_001 csv c i j =
     (if j < c then
        (case js_nth csv (i + j) of
           None \<Rightarrow> batch_records_part_001 csv c i (j + 1)
         | Some currentRecord \<Rightarrow> currentRecord # batch_records_part_001 csv c i (j + 1))
      else [])"
  by pat_completeness auto
termination
  by (relation "measure (\<lambda>(csv, c, i, j). nat (c - j))") auto

declare batch_records_part_001.simps [simp del]

text \<open>Here the report walks the values \<open>Promise.all\<close> resolved with.\<close>

definition run_batch_part_001 :: "int dispatch_env \<Rightarrow> int \<Rightarrow> event list \<times> error option" where
  "run_batch_part_001 env i =
     (let records = batch_records_part_001 (csvFileContents env) (concurrency env) i 0;
          addressArray = map (\<lambda>r. js_nth r (emailColumnIndex env)) records;
          configs = map (record_email env) records;
          responseArray = map (sendOneEmail (env_send env) (env_htmlToText env)) configs;
          started = BatchStart
            # (if throttle env \<noteq> 0 then [Throttled (JNum (throttle env))] else [])
            @ map (\<lambda>c. Sent (messageObject (env_htmlToText env) c)) configs
      in case promise_all responseArray of
           Inl e \<Rightarrow> (started, Some e)
         | Inr resolvedResponses \<Rightarrow>
             (started @
              map (\<lambda>(index, val).
                     report_line (JNum (i + int index)) (recordCount (info env))
                       (address_at addressArray index) (result_truthy val) (result_shown val))
                (zip [0 ..< length resolvedResponses] resolvedResponses),
              None))"

partial_function (option) send_loop_part_001 ::
    "int dispatch_env \<Rightarrow> int \<Rightarrow> event list \<Rightarrow> (event list \<times> error option) option" where
  "send_loop_part_001 env i evs =
     (if i \<le> recordCount (info env) then
        (case run_batch_part_001 env i of
           (bevs, Some e) \<Rightarrow> Some (evs @ bevs, Some e)
         | (bevs, None) \<Rightarrow> send_loop_part_001 env (i + concurrency env) (evs @ bevs))
      else Some (evs, None))"

declare send_loop_part_001.simps [code]

section \<open>init, from the configuration check on\<close>

text \<open>
  What \<open>init\<close> reads after its set-up (API key, file names, existence of the files):
  the parsed config file, the CSV file as the chunks its read stream delivers (the same
  bytes that \<open>readFileSync\<close> returns at once), the template file, the operator's
  answer, and the collaborators.
\<close>

record init_input =
  in_config :: "string \<Rightarrow> string option"
  in_csv :: "string list"
  in_template :: string
  in_confirm :: bool
  in_parse :: "string \<Rightarrow> error + string list list"
  in_send :: "message \<Rightarrow> send_result"
  in_htmlToText :: "string \<Rightarrow> string"

text \<open>\<open>!config.KEY\<close>: the key is missing or its value is empty.\<close>

definition js_missing :: "string option \<Rightarrow> bool" where
  "js_missing v = (case v of None \<Rightarrow> True | Some s \<Rightarrow> s = [])"

definition config_text :: "string option \<Rightarrow> string" where
  "config_text v = (case v of None \<Rightarrow> ''undefined'' | Some s \<Rightarrow> s)"

text \<open>
  The checks before the loop: an exception (\<open>Inl\<close>), the return after a declined
  confirmation (\<open>Inr None\<close>), or what the loop works with.
\<close>

definition prepare :: "init_input \<Rightarrow> error + (csv_info \<times> int \<times> string list list) option" where
  "prepare inp =
     (if js_missing (in_config inp ''SUBJECT_LINE'') \<or> js_missing (in_config inp ''FROM_NAME'')
         \<or> js_missing (in_config inp ''FROM_ADDRESS'')
      then Inl (Error ''Config file must contain: SUBJECT_LINE, FROM_NAME, FROM_ADDRESS'')
      else
        (case getCsvInfo (in_parse inp) (in_csv inp) of
           Inl e \<Rightarrow> Inl e
         | Inr ci \<Rightarrow>
             (let idx = index_of (columnNames ci) ''Email''
              in if idx = -1
                 then Inl (Error (''CSV file does not have a column matching the expected name of ''
                                  @ [CHR 0x22] @ ''Email'' @ [CHR 0x22]))
                 else
                   (case check_template (config_text (in_config inp ''SUBJECT_LINE''))
                           (in_template inp) (columnNames ci) of
                      Inl e \<Rightarrow> Inl e
                    | Inr usedTokens \<Rightarrow>
                        if \<not> in_confirm inp then Inr None
                        else (case in_parse inp (concat (in_csv inp)) of
                                Inl e \<Rightarrow> Inl e
                              | Inr csv \<Rightarrow> Inr (Some (ci, idx, csv)))))))"

definition make_env :: "init_input \<Rightarrow> 'n \<Rightarrow> 'n \<Rightarrow> csv_info \<Rightarrow> int \<Rightarrow> string list list \<Rightarrow> 'n dispatch_env" where
  "make_env inp t c ci idx csv =
     \<lparr>throttle = t,
      concurrency = c,
      info = ci,
      emailColumnIndex = idx,
      csvFileContents = csv,
      subjectLine = config_text (in_config inp ''SUBJECT_LINE''),
      fromName = config_text (in_config inp ''FROM_NAME''),
      fromAddress = config_text (in_config inp ''FROM_ADDRESS''),
      templateFileContents = in_template inp,
      env_send = in_send inp,
      env_htmlToText = in_htmlToText inp\<rparr>"

text \<open>
  \<open>init\<close> of sendEmails.js: \<open>config.THROTTLE || defaults.throttle\<close> and
  \<open>config.CONCURRENCY || defaults.concurrency\<close> go into the loop as they are.
\<close>

definition init :: "init_input \<Rightarrow> (event list \<times> error option) option" where
  "init inp =
     (case prepare inp of
        Inl e \<Rightarrow> Some ([], Some e)
      | Inr None \<Rightarrow> Some ([], None)
      | Inr (Some (ci, idx, csv)) \<Rightarrow>
          send_loop
            (make_env inp (or_default (in_config inp ''THROTTLE'') 0)
               (or_default (in_config inp ''CONCURRENCY'') 1) ci idx csv)
            (JNum 1) [])"

text \<open>
  \<open>parseInt(v, 10)\<close>: white space and a sign are skipped, the leading decimal digits
  are read, and without a digit the result is \<open>NaN\<close> (\<open>None\<close>), as for \<open>undefined\<close>.
\<close>

definition js_space :: "char \<Rightarrow> bool" where
  "js_space c = ((of_char c :: nat) = 32 \<or> (9 \<le> (of_char c :: nat) \<and> (of_char c :: nat) \<le> 13))"

definition parseInt10 :: "string option \<Rightarrow> int option" where
  "parseInt10 v =
     (case v of
        None \<Rightarrow> None
      | Some s \<Rightarrow>
          (let t = dropWhile js_space s;
               neg = (t \<noteq> [] \<and> hd t = CHR ''-'');
               u = (if t \<noteq> [] \<and> (hd t = CHR ''-'' \<or> hd t = CHR ''+'') then tl t else t);
               ds = takeWhile digit_char u
           in if ds = [] then None
              else Some (if neg then - int (decimal ds) else int (decimal ds))))"

text \<open>\<open>parseInt(v, 10) || dflt\<close>: the default replaces \<open>NaN\<close> and 0.\<close>

definition parsed_or_default :: "string option \<Rightarrow> int \<Rightarrow> int" where
  "parsed_or_default v dflt =
     (case parseInt10 v of None \<Rightarrow> dflt | Some n \<Rightarrow> if n = 0 then dflt else n)"

definition init_part_001 :: "init_input \<Rightarrow> (event list \<times> error option) option" where
  "init_part_001 inp =
     (case prepare inp of
        Inl e \<Rightarrow> Some ([], Some e)
      | Inr None \<Rightarrow> Some ([], None)
      | Inr (Some (ci, idx, csv)) \<Rightarrow>
          send_loop_part_001
            (make_env inp (parsed_or_default (in_config inp ''THROTTLE'') 0)
               (parsed_or_default (in_config inp ''CONCURRENCY'') 1) ci idx csv)
            1 [])"

section \<open>Observations on a run\<close>

text \<open>The recipients of the calls of \<open>send\<close>, in order.\<close>

definition attempted :: "event list \<Rightarrow> string option list" where
  "attempted evs = concat (map (\<lambda>e. case e of Sent m \<Rightarrow> msg_to m | _ \<Rightarrow> []) evs)"

text \<open>The report lines, in order.\<close>

definition reports :: "event list \<Rightarrow> event list" where
  "reports evs =
     filter (\<lambda>e. case e of LogDelivered p n a v \<Rightarrow> True | LogFailed p n a \<Rightarrow> True | _ \<Rightarrow> False) evs"

definition is_throttled :: "event \<Rightarrow> bool" where
  "is_throttled e = (case e of Throttled t \<Rightarrow> True | _ \<Rightarrow> False)"

text \<open>The number of throttle delays, and the number of batches.\<close>

definition throttle_count :: "event list \<Rightarrow> nat" where
  "throttle_count evs = length (filter is_throttled evs)"

definition batch_count :: "event list \<Rightarrow> nat" where
  "batch_count evs = length (filter (\<lambda>e. e = BatchStart) evs)"

text \<open>
  Every batch opens with a throttle delay, before anything else of the batch, and no
  delay stands anywhere else.
\<close>

fun delay_opens_batches :: "event list \<Rightarrow> bool" where
  "delay_opens_batches [] = True"
| "delay_opens_batches (BatchStart # Throttled t # evs) = delay_opens_batches evs"
| "delay_opens_batches (BatchStart # evs) = False"
| "delay_opens_batches (Throttled t # evs) = False"
| "delay_opens_batches (e # evs) = delay_opens_batches evs"

text \<open>Events that neither begin a batch nor delay.\<close>

definition quiet :: "event list \<Rightarrow> bool" where
  "quiet evs = list_all (\<lambda>e. e \<noteq> BatchStart \<and> \<not> is_throttled e) evs"

definition batch_events :: "jsval dispatch_env \<Rightarrow> jsval \<Rightarrow> event list" where
  "batch_events env i = fst (run_batch env i)"

text \<open>
  The messages sent, batch by batch: \<open>sent_split\<close> returns the messages before the
  first batch start of the list, and the batches behind it.
\<close>

fun sent_split :: "event list \<Rightarrow> message list \<times> message list list" where
  "sent_split [] = ([], [])"
| "sent_split (e # evs) =
     (case sent_split evs of
        (cur, done) \<Rightarrow>
          (case e of
             BatchStart \<Rightarrow> ([], cur # done)
           | Sent m \<Rightarrow> (m # cur, done)
           | _ \<Rightarrow> (cur, done)))"

definition sent_batches :: "event list \<Rightarrow> message list list" where
  "sent_batches evs = snd (sent_split evs)"

text \<open>Events that neither begin a batch nor send.\<close>

definition silent :: "event \<Rightarrow> bool" where
  "silent e = (case e of BatchStart \<Rightarrow> False | Sent m \<Rightarrow> False | _ \<Rightarrow> True)"

text \<open>The message that is sent for a record.\<close>

definition record_message :: "'n dispatch_env \<Rightarrow> string list \<Rightarrow> message" where
  "record_message env r = messageObject (env_htmlToText env) (record_email env r)"

text \<open>A list cut into consecutive pieces of \<open>n\<close> elements, the last one possibly shorter.\<close>

function batches_of :: "nat \<Rightarrow> 'a list \<Rightarrow> 'a list list" where
  "batches_of c rows =
     (if rows = [] \<or> c = 0 then []
      else take c rows # batches_of c (drop c rows))"
  by pat_completeness auto
termination
  by (relation "measure (\<lambda>(c, rows). length rows)") auto

declare batches_of.simps [simp del]

text \<open>The values of \<open>i\<close> at which a loop over numbers begins a batch.\<close>

function batch_starts :: "int \<Rightarrow> int \<Rightarrow> int \<Rightarrow> int list" where
  "batch_starts c n i = (if 1 \<le> c \<and> i \<le> n then i # batch_starts c n (i + c) else [])"
  by pat_completeness auto
termination
  by (relation "measure (\<lambda>(c, n, i). nat (n + 1 - i))") auto

declare batch_starts.simps [simp del]

definition batch_events_part_001 :: "int dispatch_env \<Rightarrow> int \<Rightarrow> event list" where
  "batch_events_part_001 env i = fst (run_batch_part_001 env i)"

section \<open>Example inputs\<close>

text \<open>
  A record set with the columns \<open>Name\<close>, \<open>Email\<close> and seven data rows, every row
  ended by a line feed; and one with three data rows.
\<close>

definition seven_rows :: string where
  "seven_rows = ''Name,Email'' @ [newline] @ ''A,a@x'' @ [newline] @ ''B,b@x'' @ [newline]
     @ ''C,c@x'' @ [newline] @ ''D,d@x'' @ [newline] @ ''E,e@x'' @ [newline]
     @ ''F,f@x'' @ [newline] @ ''G,g@x'' @ [newline]"

definition three_rows :: string where
  "three_rows = ''Name,Email'' @ [newline] @ ''A,a@x'' @ [newline] @ ''B,b@x'' @ [newline]
     @ ''C,c@x'' @ [newline]"

text \<open>A provider's response that accepts the message under a message id.\<close>

definition accepted :: "string \<Rightarrow> send_result" where
  "accepted mid = Resolves (Some \<lparr>statusCode = 202, headers = [(''x-message-id'', mid)]\<rparr>) False"

text \<open>A response with status 500.\<close>

definition refused :: send_result where
  "refused = Resolves (Some \<lparr>statusCode = 500, headers = []\<rparr>) False"

text \<open>
  A provider that fails in the given way for the message to one address, and accepts
  every other message under the id \<open>id-\<close> followed by its subject.
\<close>

definition provider_failing :: "string \<Rightarrow> send_result \<Rightarrow> message \<Rightarrow> send_result" where
  "provider_failing addr failure m =
     (if msg_to m = [Some addr] then failure else accepted (''id-'' @ msg_subject m))"

text \<open>
  An input of \<open>init\<close>: the settings of the config file (the subject line is
  \<open>@Name@\<close> unless they set it), the CSV file in one chunk, a template, a confirming
  operator.
\<close>

definition example_input ::
    "(string \<times> string) list \<Rightarrow> string \<Rightarrow> string \<Rightarrow> (message \<Rightarrow> send_result) \<Rightarrow> init_input" where
  "example_input settings csv template provider =
     \<lparr>in_config = map_of (settings @ [(''SUBJECT_LINE'', ''@Name@''), (''FROM_NAME'', ''Sender''),
                                      (''FROM_ADDRESS'', ''sender@x'')]),
      in_csv = [csv],
      in_template = template,
      in_confirm = True,
      in_parse = csv_parse,
      in_send = provider,
      in_htmlToText = (\<lambda>h. h)\<rparr>"

section \<open>Properties of the scanner\<close>

lemma index_of_count:
  "index_of xs v \<noteq> -1 \<Longrightarrow>
     count_list xs v = Suc (count_list (drop (nat (index_of xs v) + 1) xs) v)"
proof (induction xs)
  case Nil
  then show ?case by simp
next
  case (Cons x xs)
  show ?case
  proof (cases "x = v")
    case True
    then show ?thesis by simp
  next
    case False
    with Cons.prems have ne: "index_of xs v \<noteq> -1" by (auto simp: Let_def split: if_splits)
    with index_of_range [of xs v] have ge: "0 \<le> index_of xs v" by auto
    from False ne have eq: "index_of (x # xs) v = index_of xs v + 1" by (simp add: Let_def)
    from ge have "nat (index_of xs v + 1) = Suc (nat (index_of xs v))" by simp
    with eq False Cons.IH [OF ne] show ?thesis by simp
  qed
qed

text \<open>The loop adds to the count one more than the number of line feeds behind \<open>idx\<close>.\<close>

lemma count_loop_count:
  "-1 \<le> idx \<Longrightarrow>
     count_loop buffer idx rc = rc + 1 + int (count_list (drop (nat (idx + 1)) buffer) newline)"
proof (induction buffer idx rc rule: count_loop.induct)
  case (1 buffer idx rc)
  define xs where "xs = drop (nat (idx + 1)) buffer"
  define r where "r = index_of xs newline"
  from "1.prems" have b: "buffer_indexOf buffer newline (idx + 1) = (if r = -1 then -1 else idx + 1 + r)"
    by (simp add: buffer_indexOf_def Let_def r_def xs_def)
  show ?case
  proof (cases "r = -1")
    case True
    with b have "count_loop buffer idx rc = rc + 1"
      by (simp add: count_loop.simps [of buffer idx rc])
    moreover from True have "count_list xs newline = 0"
      by (simp add: r_def index_of_none)
    ultimately show ?thesis by (simp add: xs_def)
  next
    case False
    with index_of_range [of xs newline] have ge: "0 \<le> r" by (auto simp: r_def)
    from False b have b': "buffer_indexOf buffer newline (idx + 1) = idx + 1 + r" by simp
    from ge "1.prems" have ne: "idx + 1 + r \<noteq> -1" and le: "-1 \<le> idx + 1 + r" by auto
    have step: "count_loop buffer idx rc = count_loop buffer (idx + 1 + r) (rc + 1)"
      using b' ne by (simp add: count_loop.simps [of buffer idx rc])
    have ih: "count_loop buffer (idx + 1 + r) (rc + 1) =
        rc + 1 + 1 + int (count_list (drop (nat (idx + 1 + r + 1)) buffer) newline)"
      using "1.IH" [OF b' [symmetric] refl] ne le b' by simp
    have "nat (idx + 1 + r + 1) = nat r + 1 + nat (idx + 1)"
      using ge "1.prems" by simp
    then have d: "drop (nat (idx + 1 + r + 1)) buffer = drop (nat r + 1) xs"
      by (simp add: xs_def)
    from False have "count_list xs newline = Suc (count_list (drop (nat r + 1) xs) newline)"
      unfolding r_def by (rule index_of_count)
    with step ih d show ?thesis by (simp add: xs_def)
  qed
qed

lemma count_loop_chunk: "count_loop buffer (-1) (rc - 1) = rc + int (count_list buffer newline)"
  using count_loop_count [of "-1" buffer "rc - 1"] by simp

lemma on_chunks_keeps_columns:
  "on_chunks parse chunks st = Inr st' \<Longrightarrow> columnNames st \<noteq> [] \<Longrightarrow>
     columnNames st' = columnNames st \<and>
     recordCount st' = recordCount st + int (count_list (concat chunks) newline)"
proof (induction chunks arbitrary: st)
  case Nil
  then show ?case by simp
next
  case (Cons b bs)
  from Cons.prems(2) have d: "on_data parse b st =
      Inr \<lparr>columnNames = columnNames st, recordCount = recordCount st + int (count_list b newline)\<rparr>"
    by (simp add: on_data_def count_loop_chunk)
  with Cons.prems have "on_chunks parse bs
      \<lparr>columnNames = columnNames st, recordCount = recordCount st + int (count_list b newline)\<rparr> = Inr st'"
    by simp
  from Cons.IH [OF this] Cons.prems(2) show ?case by simp
qed

lemma on_chunks_total:
  "columnNames st \<noteq> [] \<Longrightarrow> \<exists>st'. on_chunks parse chunks st = Inr st'"
proof (induction chunks arbitrary: st)
  case Nil
  then show ?case by simp
next
  case (Cons b bs)
  from Cons.prems have d: "on_data parse b st =
      Inr \<lparr>columnNames = columnNames st, recordCount = recordCount st + int (count_list b newline)\<rparr>"
    by (simp add: on_data_def count_loop_chunk)
  from Cons.IH [of "\<lparr>columnNames = columnNames st, recordCount = recordCount st + int (count_list b newline)\<rparr>"]
    Cons.prems d show ?case by simp
qed

text \<open>
  When the parser finds a header record in the first chunk, the scan succeeds with that
  record, and its count is the number of line feeds of the whole input, minus one.
\<close>

lemma getCsvInfo_counts_newlines:
  assumes "parse (js_slice b 0 (buffer_indexOf b newline 0)) = Inr (r # rs)" and "r \<noteq> []"
  shows "getCsvInfo parse (b # bs) =
     Inr \<lparr>columnNames = r, recordCount = int (count_list (concat (b # bs)) newline) - 1\<rparr>"
proof -
  let ?st = "\<lparr>columnNames = r, recordCount = int (count_list b newline)\<rparr>"
  from assms have d: "on_data parse b \<lparr>columnNames = [], recordCount = 0\<rparr> = Inr ?st"
    using count_loop_chunk [of b 0] by (simp add: on_data_def)
  from assms(2) obtain st' where s: "on_chunks parse bs ?st = Inr st'"
    using on_chunks_total [of ?st parse bs] by auto
  from on_chunks_keeps_columns [OF s] assms(2)
  have "columnNames st' = r"
    "recordCount st' = int (count_list b newline) + int (count_list (concat bs) newline)"
    by simp_all
  with d s show ?thesis by (simp add: getCsvInfo_def)
qed

lemma slice_no_newline:
  "newline \<notin> set b \<Longrightarrow> js_slice b 0 (buffer_indexOf b newline 0) = butlast b"
proof -
  assume a: "newline \<notin> set b"
  have n: "nat (max 0 (int (length b) - 1)) = length b - 1" by arith
  from a have "buffer_indexOf b newline 0 = -1"
    by (simp add: buffer_indexOf_def Let_def index_of_none)
  then show ?thesis
    by (simp add: js_slice_def Let_def butlast_conv_take n)
qed

text \<open>
  C1. The scanner is claimed to return the header's fields and the number of data
  rows also when no line feed follows the last data row. On the file of the header
  \<open>Email\<close> and the single data row \<open>a@x.com\<close>, without a final line feed, the
  parser finds the header and one data row, and the scanner reports the header and a
  count of 0: the last row is not counted.
\<close>

theorem getCsvInfo_unterminated_last_row:
  "csv_parse (''Email'' @ [newline] @ ''a@x.com'') = Inr [[''Email''], [''a@x.com'']]
   \<and> getCsvInfo csv_parse [''Email'' @ [newline] @ ''a@x.com'']
       = Inr \<lparr>columnNames = [''Email''], recordCount = 0\<rparr>"
  by code_simp

text \<open>
  C10. An input without any line feed is claimed to be scanned without an error. The
  one-byte input \<open>a\<close> has no line feed; \<open>indexOf\<close> returns -1, the header text
  \<open>slice(0, -1)\<close> is empty, the parser returns no record, and the scan ends in a
  TypeError thrown out of the \<open>data\<close> handler.
\<close>

theorem getCsvInfo_one_byte_throws:
  "newline \<notin> set (concat [''a'']) \<and> getCsvInfo csv_parse [''a''] = Inl TypeError"
  by code_simp

text \<open>
  When the parser does find a record in the first chunk without its last byte, the
  scan of an input without a line feed returns that record, a header that lacks its
  last byte, and a record count of -1.
\<close>

lemma getCsvInfo_no_newline:
  assumes "newline \<notin> set (concat (b # bs))"
    and "parse (butlast b) = Inr (r # rs)"
    and "r \<noteq> []"
  shows "getCsvInfo parse (b # bs) = Inr \<lparr>columnNames = r, recordCount = -1\<rparr>"
proof -
  from assms(1) have nb: "newline \<notin> set b" by simp
  from assms(1) have "count_list (concat (b # bs)) newline = 0"
    using count_list_0_iff [of "concat (b # bs)" newline] by blast
  moreover from assms(2) nb
  have "parse (js_slice b 0 (buffer_indexOf b newline 0)) = Inr (r # rs)"
    by (simp add: slice_no_newline)
  ultimately show ?thesis
    using getCsvInfo_counts_newlines [OF _ assms(3), of parse b rs bs] by simp
qed

lemma getCsvInfo_no_newline_example:
  "newline \<notin> set (concat [''Email'', ''xy''])
   \<and> csv_parse (butlast ''Email'') = Inr [[''Emai'']]
   \<and> getCsvInfo csv_parse [''Email'', ''xy''] = Inr \<lparr>columnNames = [''Emai''], recordCount = -1\<rparr>"
proof -
  have h1: "newline \<notin> set (concat [''Email'', ''xy''])" by code_simp
  have h2: "csv_parse (butlast ''Email'') = Inr [[''Emai'']]" by code_simp
  have h3: "[''Emai''] \<noteq> []" by simp
  have "getCsvInfo csv_parse [''Email'', ''xy''] = Inr \<lparr>columnNames = [''Emai''], recordCount = -1\<rparr>"
    using h1 h2 h3
    by (rule getCsvInfo_no_newline [where b = "''Email''" and bs = "[''xy'']"
          and parse = csv_parse and r = "[''Emai'']" and rs = "[]"])
  with h1 h2 show ?thesis by simp
qed

section \<open>Properties of the token engine\<close>

text \<open>
  How \<open>replaceTokens\<close> of sendEmails.js walks a text: a character other than \<open>@\<close>
  is kept; a token at the head is replaced by the record's value when its name is a
  column and the value is not empty, and kept otherwise; and the walk goes on behind
  the token, so that a value is never scanned itself.
\<close>

lemma at_not_word_char: "\<not> word_char CHR ''@''"
  by (simp add: word_char_def)

lemma token_at_token:
  "list_all word_char name \<Longrightarrow>
     token_at (CHR ''@'' # name @ CHR ''@'' # rest) = Some (CHR ''@'' # name @ ''@'', rest)"
proof -
  assume a: "list_all word_char name"
  then have w: "\<And>x. x \<in> set name \<Longrightarrow> word_char x" by (simp add: list_all_iff)
  have "dropWhile word_char (name @ CHR ''@'' # rest) = CHR ''@'' # rest"
    using w at_not_word_char by (simp add: dropWhile_append2)
  moreover have "takeWhile word_char (name @ CHR ''@'' # rest) = name"
    using w at_not_word_char by (simp add: takeWhile_append2)
  ultimately show ?thesis by (simp add: token_at_def)
qed

lemma token_name: "js_slice (CHR ''@'' # name @ ''@'') 1 (-1) = name"
  by (simp add: js_slice_def Let_def)

lemma replaceTokens_token:
  "list_all word_char name \<Longrightarrow>
     replaceTokens (CHR ''@'' # name @ CHR ''@'' # rest) keys vals =
       (case js_nth vals (index_of keys name) of
          None \<Rightarrow> CHR ''@'' # name @ ''@''
        | Some v \<Rightarrow> if v = [] then CHR ''@'' # name @ ''@'' else v)
       @ replaceTokens rest keys vals"
  by (simp add: replaceTokens_def token_at_token token_name)

lemma replaceTokens_plain:
  "c \<noteq> CHR ''@'' \<Longrightarrow> replaceTokens (c # cs) keys vals = c # replaceTokens cs keys vals"
  by (simp add: replaceTokens_def token_at_def)

lemma replaceTokens_known:
  assumes "list_all word_char name" and "index_of keys name = k" and "js_nth vals k = Some v" and "v \<noteq> []"
  shows "replaceTokens (CHR ''@'' # name @ CHR ''@'' # rest) keys vals = v @ replaceTokens rest keys vals"
  using assms by (simp add: replaceTokens_token)

lemma replaceTokens_unknown:
  assumes "list_all word_char name" and "name \<notin> set keys"
  shows "replaceTokens (CHR ''@'' # name @ CHR ''@'' # rest) keys vals
     = CHR ''@'' # name @ CHR ''@'' # replaceTokens rest keys vals"
proof -
  from assms(2) have "index_of keys name = -1" by (simp add: index_of_none)
  then have "js_nth vals (index_of keys name) = None" by (simp add: js_nth_def)
  with assms(1) show ?thesis by (simp add: replaceTokens_token)
qed

text \<open>
  C6. Substitution is claimed to replace a token whose name is a column by the record's
  value also when that value is the empty string. With the columns \<open>Name\<close>, \<open>Email\<close>
  and a record whose \<open>Name\<close> is empty, \<open>replaceTokens\<close> of sendEmails.js leaves the
  token \<open>@Name@\<close> in the text.
\<close>

theorem replaceTokens_empty_value:
  "index_of [''Name'', ''Email''] ''Name'' = 0
   \<and> js_nth ['''', ''ana@x.com''] 0 = Some ''''
   \<and> replaceTokens ''Hi @Name@!'' [''Name'', ''Email''] ['''', ''ana@x.com''] = ''Hi @Name@!''"
  by code_simp

text \<open>
  The variant part_000 replaces the empty value, and writes \<open>undefined\<close> for a token
  whose name is no column.
\<close>

lemma replaceTokens_part_000_examples:
  "replaceTokens_part_000 ''Hi @Name@!'' [''Name'', ''Email''] ['''', ''ana@x.com''] = ''Hi !''
   \<and> replaceTokens_part_000 ''Call @Phone@'' [''Name'', ''Email''] [''Ana'', ''ana@x.com'']
       = ''Call undefined''"
  by code_simp

text \<open>
  C7. On a text without a token the template check is claimed to complete. For the
  subject \<open>Hello\<close> and the template \<open><p>Hi</p>\<close> the scan finds no token, \<open>match\<close>
  returns \<open>null\<close>, and the check ends in a TypeError.
\<close>

theorem check_template_no_token:
  "scan_tokens (''Hello'' @ ''<p>Hi</p>'') = []
   \<and> js_match (''Hello'' @ ''<p>Hi</p>'') = None
   \<and> check_template ''Hello'' ''<p>Hi</p>'' [''Name'', ''Email''] = Inl TypeError"
  by code_simp

section \<open>Properties of sendOneEmail\<close>

text \<open>
  C9. \<open>sendOneEmail\<close> never throws. It hands the provider the message built from its
  argument, and it resolves with the value of the response's \<open>x-message-id\<close> header
  (\<open>undefined\<close> when the response has no such header) exactly when the provider's
  call did not throw, its second result is not truthy and the status code is 202; in
  every other case it resolves with \<open>false\<close>.
\<close>

theorem sendOneEmail_result:
  "sendOneEmail provider h2t cfg =
     Inr (case provider
                 \<lparr>msg_to = [cfg_to cfg],
                  msg_from_email = cfg_from cfg,
                  msg_from_name = cfg_fromName cfg,
                  msg_subject = cfg_subject cfg,
                  msg_text = (case cfg_plaintextMessage cfg of
                                None \<Rightarrow> h2t (cfg_htmlMessage cfg)
                              | Some p \<Rightarrow> if p = [] then h2t (cfg_htmlMessage cfg) else p),
                  msg_html = cfg_htmlMessage cfg\<rparr> of
            Throws \<Rightarrow> JFalse
          | Resolves None reject \<Rightarrow> JFalse
          | Resolves (Some rp) reject \<Rightarrow>
              if \<not> reject \<and> statusCode rp = 202
              then (case map_of (headers rp) ''x-message-id'' of
                      None \<Rightarrow> JUndefined
                    | Some v \<Rightarrow> JText v)
              else JFalse)"
  by (simp add: sendOneEmail_def send_try_def messageObject_def message_id_def
      split: send_result.splits option.splits)

text \<open>
  For instance: an accepted message resolves with its id; status 200, a truthy second
  result and an exception resolve with \<open>false\<close>.
\<close>

lemma sendOneEmail_examples:
  "sendOneEmail (\<lambda>m. accepted ''abc'') h2t cfg = Inr (JText ''abc'')
   \<and> sendOneEmail (\<lambda>m. Resolves (Some \<lparr>statusCode = 200, headers = [(''x-message-id'', ''abc'')]\<rparr>) False)
         h2t cfg = Inr JFalse
   \<and> sendOneEmail (\<lambda>m. Resolves (Some \<lparr>statusCode = 202, headers = [(''x-message-id'', ''abc'')]\<rparr>) True)
         h2t cfg = Inr JFalse
   \<and> sendOneEmail (\<lambda>m. Throws) h2t cfg = Inr JFalse"
  by (simp add: sendOneEmail_def send_try_def accepted_def message_id_def)

section \<open>Properties of the dispatch loop\<close>

lemma sendOneEmail_resolves: "sendOneEmail s h c = Inr (projr (sendOneEmail s h c))"
  by (simp add: sendOneEmail_def split: sum.splits)

lemma promise_all_resolved:
  "promise_all (map (sendOneEmail s h) cs) = Inr (map (\<lambda>c. projr (sendOneEmail s h c)) cs)"
proof (induction cs)
  case Nil
  show ?case by simp
next
  case (Cons c cs)
  obtain v where v: "sendOneEmail s h c = Inr v"
    using sendOneEmail_resolves [of s h c] by blast
  with Cons show ?case by simp
qed

lemma run_batch_no_error: "run_batch env i = (batch_events env i, None)"
  by (simp add: batch_events_def run_batch_def Let_def promise_all_resolved)

lemma send_loop_step:
  "js_le_num i (recordCount (info env)) \<Longrightarrow>
     send_loop env i evs = send_loop env (js_add i (concurrency env)) (evs @ batch_events env i)"
  by (subst send_loop.simps) (simp add: run_batch_no_error)

lemma send_loop_stop:
  "\<not> js_le_num i (recordCount (info env)) \<Longrightarrow> send_loop env i evs = Some (evs, None)"
  by (subst send_loop.simps) simp

lemma send_loop_numbers_unroll:
  assumes "concurrency env = JNum c" and "1 \<le> c"
  shows "send_loop env (JNum k) evs =
     Some (evs @ concat (map (batch_events env) (map JNum (batch_starts c (recordCount (info env)) k))), None)"
proof (induction "nat (recordCount (info env) + 1 - k)" arbitrary: k evs rule: less_induct)
  case less
  show ?case
  proof (cases "k \<le> recordCount (info env)")
    case False
    moreover from False have "batch_starts c (recordCount (info env)) k = []"
      by (subst batch_starts.simps) simp
    ultimately show ?thesis
      by (simp add: send_loop_stop js_le_num_def to_number_def)
  next
    case True
    then have s: "send_loop env (JNum k) evs =
        send_loop env (JNum (k + c)) (evs @ batch_events env (JNum k))"
      using assms(1) by (simp add: send_loop_step js_le_num_def to_number_def js_add_def)
    from True assms(2)
    have "nat (recordCount (info env) + 1 - (k + c)) < nat (recordCount (info env) + 1 - k)"
      by simp
    note ih = less [OF this, of "evs @ batch_events env (JNum k)"]
    from True assms(2) have "batch_starts c (recordCount (info env)) k
        = k # batch_starts c (recordCount (info env)) (k + c)"
      by (subst batch_starts.simps) simp
    with s ih show ?thesis by simp
  qed
qed

lemma decimal_foldl:
  fixes f :: "nat \<Rightarrow> char \<Rightarrow> nat"
  defines "f \<equiv> (\<lambda>a c. 10 * a + ((of_char c :: nat) - 48))"
  shows "foldl f a s = a * 10 ^ length s + foldl f 0 s"
proof (induction s arbitrary: a)
  case Nil
  show ?case by simp
next
  case (Cons x s)
  have "foldl f a (x # s) = foldl f (f a x) s" by simp
  also have "\<dots> = f a x * 10 ^ length s + foldl f 0 s" by (rule Cons.IH)
  also have "f a x = a * 10 + f 0 x" by (simp add: f_def)
  also have "(a * 10 + f 0 x) * 10 ^ length s + foldl f 0 s
      = a * 10 ^ length (x # s) + (f 0 x * 10 ^ length s + foldl f 0 s)"
    by (simp add: algebra_simps)
  also have "f 0 x * 10 ^ length s + foldl f 0 s = foldl f (f 0 x) s" by (rule Cons.IH [symmetric])
  also have "\<dots> = foldl f 0 (x # s)" by simp
  finally show ?case .
qed

lemma decimal_append: "decimal (t @ s) = decimal t * 10 ^ length s + decimal s"
  using decimal_foldl [of "decimal t" s] by (simp add: decimal_def)

lemma num_to_string_1: "num_to_string 1 = ''1''"
  by code_simp

text \<open>
  With a concurrency read from the config file, the string of a decimal numeral, the
  run consists of its first batch alone whenever the string \<open>1\<close> followed by the
  setting converts to a number above the record count; with at most nine records that
  is always so.
\<close>

lemma send_loop_string_single_batch:
  assumes "concurrency env = JStr s"
    and "1 \<le> recordCount (info env)"
    and "\<not> js_le_num (JStr (''1'' @ s)) (recordCount (info env))"
    and "list_all digit_char s" and "int (decimal s) \<le> max_safe"
  shows "send_loop env (JNum 1) [] = Some (batch_events env (JNum 1), None)"
proof -
  from assms(2) have "js_le_num (JNum 1) (recordCount (info env))"
    by (simp add: js_le_num_def to_number_def)
  then have "send_loop env (JNum 1) [] =
      send_loop env (js_add (JNum 1) (concurrency env)) ([] @ batch_events env (JNum 1))"
    by (rule send_loop_step)
  also have "js_add (JNum 1) (concurrency env) = JStr (''1'' @ s)"
    using assms(1) by (simp add: js_add_def to_string_def num_to_string_1)
  also have "send_loop env (JStr (''1'' @ s)) ([] @ batch_events env (JNum 1))
      = Some ([] @ batch_events env (JNum 1), None)"
    using assms(3) by (rule send_loop_stop)
  finally show ?thesis by simp
qed

lemma string_concurrency_small_count:
  assumes "s \<noteq> []" and "list_all digit_char s" and "n \<le> 9"
  shows "\<not> js_le_num (JStr (''1'' @ s)) n"
proof -
  have d1: "decimal ''1'' = 1" by code_simp
  from assms(1) obtain k where k: "length s = Suc k" by (cases s) auto
  have e: "decimal (''1'' @ s) = 10 * 10 ^ k + decimal s"
    using decimal_append [of "''1''" s] d1 k by simp
  have "(10::nat) \<le> 10 * 10 ^ k" by simp
  then have "10 \<le> 10 * 10 ^ k + decimal s" by (rule trans_le_add1)
  then have "10 \<le> decimal (''1'' @ s)" by (simp only: e)
  then show ?thesis using assms(3) by (simp add: js_le_num_def to_number_def split: if_splits)
qed

lemma quiet_append_delay:
  "quiet rest \<Longrightarrow> delay_opens_batches (rest @ later) = delay_opens_batches later"
proof (induction rest)
  case Nil
  show ?case by simp
next
  case (Cons e rest)
  then have "quiet rest" and "e \<noteq> BatchStart" and "\<not> is_throttled e"
    by (simp_all add: quiet_def)
  with Cons.IH show ?case by (cases e) (simp_all add: is_throttled_def)
qed

lemma quiet_counts: "quiet rest \<Longrightarrow> throttle_count rest = 0 \<and> batch_count rest = 0"
  by (induction rest) (auto simp: quiet_def throttle_count_def batch_count_def)

lemma batch_events_shape:
  assumes "js_truthy (throttle env)"
  shows "\<exists>rest. batch_events env i = BatchStart # Throttled (throttle env) # rest \<and> quiet rest"
proof -
  let ?cs = "map (record_email env) (batch_records (csvFileContents env) (concurrency env) i 0)"
  let ?sent = "map (\<lambda>c. Sent (messageObject (env_htmlToText env) c)) ?cs"
  let ?as = "map (\<lambda>r. js_nth r (emailColumnIndex env)) (batch_records (csvFileContents env) (concurrency env) i 0)"
  let ?rep = "map (\<lambda>index. report_line (js_add i (JNum (int index))) (recordCount (info env))
                       (address_at ?as index) True ''[object Promise]'') [0 ..< length ?cs]"
  have "batch_events env i = BatchStart # Throttled (throttle env) # (?sent @ ?rep)"
    using assms by (simp add: batch_events_def run_batch_def Let_def promise_all_resolved)
  moreover have "quiet (?sent @ ?rep)"
    by (auto simp: quiet_def list_all_iff report_line_def is_throttled_def)
  ultimately show ?thesis by blast
qed

lemma delayed_batches:
  assumes "\<And>i. \<exists>t rest. f i = BatchStart # Throttled t # rest \<and> quiet rest"
  shows "delay_opens_batches (concat (map f is))
     \<and> throttle_count (concat (map f is)) = length is
     \<and> batch_count (concat (map f is)) = length is"
proof (induction "is")
  case Nil
  show ?case by (simp add: throttle_count_def batch_count_def)
next
  case (Cons i "is")
  from assms [of i] obtain t rest
    where b: "f i = BatchStart # Throttled t # rest" and q: "quiet rest"
    by blast
  let ?later = "concat (map f is)"
  have c: "concat (map f (i # is)) = BatchStart # Throttled t # (rest @ ?later)"
    using b by simp
  have "delay_opens_batches (rest @ ?later)"
    using q Cons.IH by (simp add: quiet_append_delay)
  moreover have "throttle_count (rest @ ?later) = length is" "batch_count (rest @ ?later) = length is"
    using quiet_counts [OF q] Cons.IH by (simp_all add: throttle_count_def batch_count_def)
  ultimately show ?case
    unfolding c by (simp add: throttle_count_def batch_count_def is_throttled_def)
qed

lemma batches_delayed:
  assumes "js_truthy (throttle env)"
  shows "delay_opens_batches (concat (map (batch_events env) is))
     \<and> throttle_count (concat (map (batch_events env) is)) = length is
     \<and> batch_count (concat (map (batch_events env) is)) = length is"
  using delayed_batches [of "batch_events env" "is"] batch_events_shape [OF assms] by blast

subsection \<open>The batches partition the data records\<close>

lemma sent_split_silent: "list_all silent pre \<Longrightarrow> sent_split (pre @ rest) = sent_split rest"
proof (induction pre)
  case Nil
  show ?case by simp
next
  case (Cons e pre)
  then have "silent e" and "sent_split (pre @ rest) = sent_split rest" by simp_all
  then show ?case by (cases e) (simp_all add: silent_def split: prod.splits)
qed

lemma sent_split_sents:
  "sent_split (map Sent ms @ rest) = (ms @ fst (sent_split rest), snd (sent_split rest))"
  by (induction ms) (simp_all split: prod.splits)

lemma sent_split_one_batch:
  assumes "list_all silent pre" and "list_all silent post"
  shows "sent_split ((BatchStart # pre @ map Sent ms @ post) @ rest)
     = ([], (ms @ fst (sent_split rest)) # snd (sent_split rest))"
proof -
  have "sent_split (pre @ map Sent ms @ post @ rest) = sent_split (map Sent ms @ post @ rest)"
    using assms(1) by (rule sent_split_silent)
  also have "\<dots> = (ms @ fst (sent_split (post @ rest)), snd (sent_split (post @ rest)))"
    by (rule sent_split_sents)
  also have "sent_split (post @ rest) = sent_split rest"
    using assms(2) by (rule sent_split_silent)
  finally show ?thesis by simp
qed

text \<open>The inner loop over numbers reads the records from \<open>i + j\<close> on, at most \<open>c - j\<close> of them.\<close>

lemma batch_records_part_001_eq:
  "0 \<le> i + j \<Longrightarrow> batch_records_part_001 csv c i j = take (nat (c - j)) (drop (nat (i + j)) csv)"
proof (induction csv c i j rule: batch_records_part_001.induct)
  case (1 csv c i j)
  show ?case
  proof (cases "j < c")
    case False
    then show ?thesis by (simp add: batch_records_part_001.simps [of csv c i j])
  next
    case True
    from "1.prems" have n: "nat (i + (j + 1)) = Suc (nat (i + j))" by simp
    from True have t: "nat (c - j) = Suc (nat (c - (j + 1)))" by simp
    show ?thesis
    proof (cases "js_nth csv (i + j)")
      case None
      with "1.prems" have "length csv \<le> nat (i + j)" by (simp add: js_nth_def split: if_splits)
      then have "drop (nat (i + j)) csv = []" "drop (Suc (nat (i + j))) csv = []" by simp_all
      with "1.IH"(1) [OF True None] "1.prems" True None n show ?thesis
        by (simp add: batch_records_part_001.simps [of csv c i j])
    next
      case (Some r)
      with "1.prems" have lt: "nat (i + j) < length csv" and r: "r = csv ! nat (i + j)"
        by (auto simp: js_nth_def split: if_splits)
      from lt have "drop (nat (i + j)) csv = csv ! nat (i + j) # drop (Suc (nat (i + j))) csv"
        by (simp add: Cons_nth_drop_Suc)
      with "1.IH"(2) [OF True Some] "1.prems" True Some n t r show ?thesis
        by (simp add: batch_records_part_001.simps [of csv c i j])
    qed
  qed
qed

lemma batches_of_map: "batches_of n (map f xs) = map (map f) (batches_of n xs)"
proof (induction n xs rule: batches_of.induct)
  case (1 n xs)
  show ?case
  proof (cases "n = 0 \<or> xs = []")
    case True
    then show ?thesis by (auto simp: batches_of.simps [of n "map f xs"] batches_of.simps [of n xs])
  next
    case False
    with "1.IH" show ?thesis
      by (simp add: batches_of.simps [of n "map f xs"] batches_of.simps [of n xs] take_map drop_map)
  qed
qed

lemma batches_of_Nil: "batches_of n [] = []"
  by (subst batches_of.simps) simp

lemma batch_starts_batches_of:
  "1 \<le> c \<Longrightarrow> n = int (length csv) - 1 \<Longrightarrow> 0 \<le> k \<Longrightarrow>
    map (\<lambda>i. batch_records_part_001 csv c i 0) (batch_starts c n k)
      = batches_of (nat c) (drop (nat k) csv)"
proof (induction c n k rule: batch_starts.induct)
  case (1 c n k)
  show ?case
  proof (cases "k \<le> n")
    case False
    with "1.prems" have "length csv \<le> nat k" by linarith
    then have "drop (nat k) csv = []" by simp
    moreover from False have "batch_starts c n k = []"
      by (subst batch_starts.simps) simp
    ultimately show ?thesis by (simp add: batches_of_Nil)
  next
    case True
    with "1.prems" have lt: "nat k < length csv" by linarith
    then have ne: "drop (nat k) csv \<noteq> []" by simp
    from "1.prems" have c0: "nat c \<noteq> 0" by simp
    from "1.prems" have kc: "0 \<le> k + c" by simp
    from "1.prems" True have ih: "map (\<lambda>i. batch_records_part_001 csv c i 0) (batch_starts c n (k + c))
        = batches_of (nat c) (drop (nat (k + c)) csv)"
      using "1.IH" kc by simp
    from "1.prems" have "nat (k + c) = nat c + nat k" by simp
    then have d: "drop (nat c) (drop (nat k) csv) = drop (nat (k + c)) csv" by simp
    have b: "batch_records_part_001 csv c k 0 = take (nat c) (drop (nat k) csv)"
      using batch_records_part_001_eq [of k 0 csv c] "1.prems" by simp
    have "batches_of (nat c) (drop (nat k) csv)
        = take (nat c) (drop (nat k) csv) # batches_of (nat c) (drop (nat (k + c)) csv)"
      using ne c0 d by (simp add: batches_of.simps [of "nat c" "drop (nat k) csv"])
    moreover from True "1.prems"(1) have "batch_starts c n k = k # batch_starts c n (k + c)"
      by (subst batch_starts.simps) simp
    ultimately show ?thesis using ih b by simp
  qed
qed

lemma concat_batches_of: "0 < n \<Longrightarrow> concat (batches_of n xs) = xs"
proof (induction n xs rule: batches_of.induct)
  case (1 n xs)
  show ?case
  proof (cases "xs = []")
    case True
    then show ?thesis by (simp add: batches_of_Nil)
  next
    case False
    with "1.prems" "1.IH" show ?thesis by (simp add: batches_of.simps [of n xs])
  qed
qed

lemma batches_of_sizes:
  "0 < n \<Longrightarrow> list_all (\<lambda>b. b \<noteq> [] \<and> length b \<le> n) (batches_of n xs)
     \<and> list_all (\<lambda>b. length b = n) (butlast (batches_of n xs))"
proof (induction n xs rule: batches_of.induct)
  case (1 n xs)
  show ?case
  proof (cases "xs = []")
    case True
    then show ?thesis by (simp add: batches_of_Nil)
  next
    case False
    with "1.prems" "1.IH" have ih: "list_all (\<lambda>b. b \<noteq> [] \<and> length b \<le> n) (batches_of n (drop n xs))"
      "list_all (\<lambda>b. length b = n) (butlast (batches_of n (drop n xs)))" by simp_all
    have c: "batches_of n xs = take n xs # batches_of n (drop n xs)"
      using False "1.prems" by (simp add: batches_of.simps [of n xs])
    show ?thesis
    proof (cases "batches_of n (drop n xs) = []")
      case True
      with c False "1.prems" show ?thesis by simp
    next
      case False
      then have "drop n xs \<noteq> []" by (auto simp: batches_of_Nil)
      then have "n \<le> length xs" by simp
      with c ih False \<open>xs \<noteq> []\<close> "1.prems" show ?thesis by (simp add: min_def)
    qed
  qed
qed

lemma batch_records_numbers:
  "batch_records csv (JNum c) (JNum i) j = batch_records_part_001 csv c i j"
proof (induction csv c i j rule: batch_records_part_001.induct)
  case (1 csv c i j)
  show ?case
  proof (cases "j < c")
    case False
    then show ?thesis
      by (simp add: batch_records.simps [of csv "JNum c" "JNum i" j]
          batch_records_part_001.simps [of csv c i j] js_num_lt_def to_number_def)
  next
    case True
    show ?thesis
    proof (cases "js_nth csv (i + j)")
      case None
      with True "1.IH"(1) [OF True None] show ?thesis
        by (simp add: batch_records.simps [of csv "JNum c" "JNum i" j]
            batch_records_part_001.simps [of csv c i j] js_num_lt_def to_number_def
            js_index_def js_add_def)
    next
      case (Some r)
      with True "1.IH"(2) [OF True Some] show ?thesis
        by (simp add: batch_records.simps [of csv "JNum c" "JNum i" j]
            batch_records_part_001.simps [of csv c i j] js_num_lt_def to_number_def
            js_index_def js_add_def)
    qed
  qed
qed

lemma batch_events_sends:
  "\<exists>pre post. list_all silent pre \<and> list_all silent post \<and>
     batch_events env i =
       BatchStart # pre
         @ map Sent (map (record_message env)
                      (batch_records (csvFileContents env) (concurrency env) i 0))
         @ post"
proof -
  let ?rs = "batch_records (csvFileContents env) (concurrency env) i 0"
  let ?pre = "if js_truthy (throttle env) then [Throttled (throttle env)] else []"
  let ?as = "map (\<lambda>r. js_nth r (emailColumnIndex env)) ?rs"
  let ?post = "map (\<lambda>index. report_line (js_add i (JNum (int index))) (recordCount (info env))
                       (address_at ?as index) True ''[object Promise]'') [0 ..< length ?rs]"
  have "batch_events env i = BatchStart # ?pre @ map Sent (map (record_message env) ?rs) @ ?post"
    by (simp add: batch_events_def run_batch_def Let_def promise_all_resolved
        record_message_def comp_def)
  moreover have "list_all silent ?pre" by (simp add: silent_def)
  moreover have "list_all silent ?post"
    by (auto simp: list_all_iff silent_def report_line_def)
  ultimately show ?thesis by blast
qed

lemma sent_split_js_batches:
  "sent_split (concat (map (batch_events env) is)) =
     ([], map (\<lambda>i. map (record_message env)
                  (batch_records (csvFileContents env) (concurrency env) i 0)) is)"
proof (induction "is")
  case Nil
  show ?case by simp
next
  case (Cons i "is")
  from batch_events_sends [of env i] obtain pre post
    where "list_all silent pre" "list_all silent post"
      and "batch_events env i = BatchStart # pre
         @ map Sent (map (record_message env)
                      (batch_records (csvFileContents env) (concurrency env) i 0))
         @ post"
    by blast
  with Cons show ?case
    by (simp only: list.map concat.simps sent_split_one_batch) simp
qed

lemma run_batch_part_001_no_error:
  "run_batch_part_001 env i = (batch_events_part_001 env i, None)"
  by (simp add: batch_events_part_001_def run_batch_part_001_def Let_def promise_all_resolved)

lemma send_loop_part_001_unroll:
  assumes "1 \<le> concurrency env"
  shows "send_loop_part_001 env k evs =
     Some (evs @ concat (map (batch_events_part_001 env)
                          (batch_starts (concurrency env) (recordCount (info env)) k)), None)"
proof (induction "nat (recordCount (info env) + 1 - k)" arbitrary: k evs rule: less_induct)
  case less
  show ?case
  proof (cases "k \<le> recordCount (info env)")
    case False
    then show ?thesis
      by (subst send_loop_part_001.simps)
        (simp add: batch_starts.simps [of "concurrency env" "recordCount (info env)" k])
  next
    case True
    with assms have "nat (recordCount (info env) + 1 - (k + concurrency env))
        < nat (recordCount (info env) + 1 - k)" by simp
    from less [OF this, of "evs @ batch_events_part_001 env k"] True assms show ?thesis
      by (subst send_loop_part_001.simps)
        (simp add: run_batch_part_001_no_error
           batch_starts.simps [of "concurrency env" "recordCount (info env)" k])
  qed
qed

lemma batch_events_part_001_shape:
  "\<exists>pre post. list_all silent pre \<and> list_all silent post \<and>
     batch_events_part_001 env i =
       BatchStart # pre
         @ map Sent (map (record_message env)
                      (batch_records_part_001 (csvFileContents env) (concurrency env) i 0))
         @ post"
proof -
  let ?rs = "batch_records_part_001 (csvFileContents env) (concurrency env) i 0"
  let ?pre = "if throttle env \<noteq> 0 then [Throttled (JNum (throttle env))] else []"
  let ?as = "map (\<lambda>r. js_nth r (emailColumnIndex env)) ?rs"
  let ?vs = "map (\<lambda>c. projr (sendOneEmail (env_send env) (env_htmlToText env) c)) (map (record_email env) ?rs)"
  let ?post = "map (\<lambda>(index, val).
                     report_line (JNum (i + int index)) (recordCount (info env))
                       (address_at ?as index) (result_truthy val) (result_shown val))
                (zip [0 ..< length ?vs] ?vs)"
  have "batch_events_part_001 env i = BatchStart # ?pre @ map Sent (map (record_message env) ?rs) @ ?post"
    by (simp add: batch_events_part_001_def run_batch_part_001_def Let_def promise_all_resolved
        record_message_def comp_def)
  moreover have "list_all silent ?pre" by (simp add: silent_def)
  moreover have "list_all silent ?post"
    by (auto simp: list_all_iff silent_def report_line_def)
  ultimately show ?thesis by blast
qed

lemma sent_split_part_001_batches:
  "sent_split (concat (map (batch_events_part_001 env) is)) =
     ([], map (\<lambda>i. map (record_message env)
                  (batch_records_part_001 (csvFileContents env) (concurrency env) i 0)) is)"
proof (induction "is")
  case Nil
  show ?case by simp
next
  case (Cons i "is")
  from batch_events_part_001_shape [of env i] obtain pre post
    where "list_all silent pre" "list_all silent post"
      and "batch_events_part_001 env i = BatchStart # pre
         @ map Sent (map (record_message env)
                      (batch_records_part_001 (csvFileContents env) (concurrency env) i 0))
         @ post"
    by blast
  with Cons show ?case
    by (simp only: list.map concat.simps sent_split_one_batch) simp
qed

text \<open>
  The variant that parses the settings: with a concurrency of at least 1 (and within
  the bound of exact counting) and a record count that is the number of data rows, the
  run ends, and the batches of messages it sends are the messages of the data rows, in
  order, cut into pieces of \<open>concurrency\<close>.
\<close>

lemma part_001_partition:
  assumes "1 \<le> concurrency env"
    and "recordCount (info env) = int (length (csvFileContents env)) - 1"
    and "concurrency env \<le> max_safe"
  shows "\<exists>evs. send_loop_part_001 env 1 [] = Some (evs, None)
     \<and> sent_batches evs
         = batches_of (nat (concurrency env)) (map (record_message env) (tl (csvFileContents env)))"
proof -
  let ?is = "batch_starts (concurrency env) (recordCount (info env)) 1"
  let ?evs = "concat (map (batch_events_part_001 env) ?is)"
  have r: "send_loop_part_001 env 1 [] = Some (?evs, None)"
    using send_loop_part_001_unroll [OF assms(1), of 1 "[]"] by simp
  have "sent_batches ?evs = map (map (record_message env))
      (map (\<lambda>i. batch_records_part_001 (csvFileContents env) (concurrency env) i 0) ?is)"
    by (simp add: sent_batches_def sent_split_part_001_batches comp_def)
  also have "map (\<lambda>i. batch_records_part_001 (csvFileContents env) (concurrency env) i 0) ?is
      = batches_of (nat (concurrency env)) (drop (nat 1) (csvFileContents env))"
    using assms(1,2) by (intro batch_starts_batches_of) simp_all
  also have "drop (nat 1) (csvFileContents env) = tl (csvFileContents env)"
    by (simp add: drop_Suc)
  finally have "sent_batches ?evs
      = batches_of (nat (concurrency env)) (map (record_message env) (tl (csvFileContents env)))"
    by (simp add: batches_of_map)
  with r show ?thesis by blast
qed

text \<open>
  The loop of sendEmails.js does the same when its concurrency is a number, which is
  the case for the default only.
\<close>

lemma send_loop_number_partition:
  assumes "concurrency env = JNum c" and "1 \<le> c"
    and "recordCount (info env) = int (length (csvFileContents env)) - 1"
    and "c \<le> max_safe"
  shows "\<exists>evs. send_loop env (JNum 1) [] = Some (evs, None)
     \<and> sent_batches evs = batches_of (nat c) (map (record_message env) (tl (csvFileContents env)))"
proof -
  let ?is = "batch_starts c (recordCount (info env)) 1"
  let ?evs = "concat (map (batch_events env) (map JNum ?is))"
  have r: "send_loop env (JNum 1) [] = Some (?evs, None)"
    using send_loop_numbers_unroll [OF assms(1,2), of 1 "[]"] by simp
  have "sent_split ?evs = ([], map (\<lambda>i. map (record_message env)
      (batch_records (csvFileContents env) (concurrency env) i 0)) (map JNum ?is))"
    by (rule sent_split_js_batches)
  then have "sent_batches ?evs = map (map (record_message env))
      (map (\<lambda>i. batch_records_part_001 (csvFileContents env) c i 0) ?is)"
    by (simp add: sent_batches_def comp_def assms(1) batch_records_numbers)
  also have "map (\<lambda>i. batch_records_part_001 (csvFileContents env) c i 0) ?is
      = batches_of (nat c) (drop (nat 1) (csvFileContents env))"
    using assms(2,3) by (intro batch_starts_batches_of) simp_all
  also have "drop (nat 1) (csvFileContents env) = tl (csvFileContents env)"
    by (simp add: drop_Suc)
  finally have "sent_batches ?evs
      = batches_of (nat c) (map (record_message env) (tl (csvFileContents env)))"
    by (simp add: batches_of_map)
  with r show ?thesis by blast
qed

text \<open>
  With a throttle, every iteration of the batch loop opens with the delay, the first
  one included; so a run has as many delays as iterations. That holds for the loop of
  sendEmails.js when its concurrency is a number, and for the variant that parses the
  settings.
\<close>

lemma send_loop_number_throttle:
  assumes "js_truthy (throttle env)" and "concurrency env = JNum c" and "1 \<le> c"
    and "c \<le> max_safe"
  shows "\<exists>evs. send_loop env (JNum 1) [] = Some (evs, None)
     \<and> throttle_count evs = batch_count evs \<and> delay_opens_batches evs"
proof -
  let ?is = "map JNum (batch_starts c (recordCount (info env)) 1)"
  have "send_loop env (JNum 1) [] = Some (concat (map (batch_events env) ?is), None)"
    using send_loop_numbers_unroll [OF assms(2,3), of 1 "[]"] by simp
  with batches_delayed [OF assms(1), of ?is] show ?thesis by simp
qed

lemma batch_events_part_001_delay:
  assumes "throttle env \<noteq> 0"
  shows "\<exists>t rest. batch_events_part_001 env i = BatchStart # Throttled t # rest \<and> quiet rest"
proof -
  let ?rs = "batch_records_part_001 (csvFileContents env) (concurrency env) i 0"
  let ?sent = "map (\<lambda>c. Sent (messageObject (env_htmlToText env) c)) (map (record_email env) ?rs)"
  let ?as = "map (\<lambda>r. js_nth r (emailColumnIndex env)) ?rs"
  let ?vs = "map (\<lambda>c. projr (sendOneEmail (env_send env) (env_htmlToText env) c)) (map (record_email env) ?rs)"
  let ?rep = "map (\<lambda>(index, val).
                     report_line (JNum (i + int index)) (recordCount (info env))
                       (address_at ?as index) (result_truthy val) (result_shown val))
                (zip [0 ..< length ?vs] ?vs)"
  have "batch_events_part_001 env i = BatchStart # Throttled (JNum (throttle env)) # (?sent @ ?rep)"
    using assms
    by (simp add: batch_events_part_001_def run_batch_part_001_def Let_def promise_all_resolved)
  moreover have "quiet (?sent @ ?rep)"
    by (auto simp: quiet_def list_all_iff report_line_def is_throttled_def split: if_splits)
  ultimately show ?thesis by blast
qed

lemma part_001_throttle:
  assumes "throttle env \<noteq> 0" and "1 \<le> concurrency env"
    and "concurrency env \<le> max_safe"
  shows "\<exists>evs. send_loop_part_001 env 1 [] = Some (evs, None)
     \<and> throttle_count evs = batch_count evs \<and> delay_opens_batches evs"
proof -
  let ?is = "batch_starts (concurrency env) (recordCount (info env)) 1"
  have "send_loop_part_001 env 1 [] = Some (concat (map (batch_events_part_001 env) ?is), None)"
    using send_loop_part_001_unroll [OF assms(2), of 1 "[]"] by simp
  moreover from delayed_batches [of "batch_events_part_001 env" ?is]
    batch_events_part_001_delay [OF assms(1)]
  have "delay_opens_batches (concat (map (batch_events_part_001 env) ?is))
     \<and> throttle_count (concat (map (batch_events_part_001 env) ?is)) = length ?is
     \<and> batch_count (concat (map (batch_events_part_001 env) ?is)) = length ?is"
    by blast
  ultimately show ?thesis by simp
qed

text \<open>
  C5. With a throttle, the delay is claimed to occur once before every batch except
  the first, b - 1 times for b batches, as the comments of the code say
  (\<open>ms to pause between batches\<close>, \<open>Throttle between batches\<close>). With \<open>THROTTLE=100\<close>, three
  records and the default concurrency, sendEmails.js runs three batches, of one record
  each, and delays three times, the first time at the start of the first batch, before
  its message is sent.
\<close>

theorem throttle_before_first_batch:
  "map_option (\<lambda>(evs, err). (batch_count evs, throttle_count evs, attempted evs, take 2 evs, err))
     (init (example_input [(''THROTTLE'', ''100'')] three_rows ''Hi'' (provider_failing '''' Throws)))
   = Some (3, 3, [Some ''a@x'', Some ''b@x'', Some ''c@x''],
           [BatchStart, Throttled (JStr ''100'')], None)"
  by code_simp

text \<open>
  C3. With \<open>CONCURRENCY=3\<close> in the config file and seven records, the batches are
  claimed to be the records 1-3, 4-6 and 7. In sendEmails.js the setting is the string
  \<open>3\<close>: after the first batch \<open>i += concurrency\<close> makes \<open>i\<close> the string \<open>13\<close>, and
  the loop ends. The run has one batch, and only the first three records are sent.
\<close>

theorem init_string_concurrency_batches:
  "map_option (\<lambda>(evs, err). (batch_count evs, attempted evs, err))
     (init (example_input [(''CONCURRENCY'', ''3'')] seven_rows ''Hi'' (provider_failing '''' Throws)))
   = Some (1, [Some ''a@x'', Some ''b@x'', Some ''c@x''], None)"
  by code_simp

text \<open>The variant that parses the setting sends all seven records, in three batches.\<close>

lemma init_part_001_batches:
  "map_option (\<lambda>(evs, err). (batch_count evs, attempted evs, err))
     (init_part_001 (example_input [(''CONCURRENCY'', ''3'')] seven_rows ''Hi'' (provider_failing '''' Throws)))
   = Some (3, [Some ''a@x'', Some ''b@x'', Some ''c@x'', Some ''d@x'', Some ''e@x'',
               Some ''f@x'', Some ''g@x''], None)"
  by code_simp

text \<open>
  C2. A record whose send fails is claimed to be recorded as failed, and the run is
  claimed to attempt every other record of the same and of later batches. With
  \<open>CONCURRENCY=2\<close>, seven records and a provider that throws for the first record,
  sendEmails.js ends without an exception after the first batch: the records 3 to 7
  are never attempted, and the report line of the first record is the line of a
  delivery.
\<close>

theorem init_failure_then_no_later_batch:
  "map_option (\<lambda>(evs, err). (attempted evs, reports evs, err))
     (init (example_input [(''CONCURRENCY'', ''2'')] seven_rows ''Hi'' (provider_failing ''a@x'' Throws)))
   = Some ([Some ''a@x'', Some ''b@x''],
           [LogDelivered (JNum 1) 7 (Some ''a@x'') ''[object Promise]'',
            LogDelivered (JNum 2) 7 (Some ''b@x'') ''[object Promise]''],
           None)"
  by code_simp

text \<open>
  With the default concurrency the same failure stops nothing: all seven records are
  attempted.
\<close>

lemma init_failure_default_concurrency:
  "map_option (\<lambda>(evs, err). (attempted evs, err))
     (init (example_input [] seven_rows ''Hi'' (provider_failing ''a@x'' Throws)))
   = Some ([Some ''a@x'', Some ''b@x'', Some ''c@x'', Some ''d@x'', Some ''e@x'',
            Some ''f@x'', Some ''g@x''], None)"
  by code_simp

text \<open>
  C4. With seven records, \<open>CONCURRENCY=2\<close> and a provider that fails for record 4
  only, the run is claimed to send all seven and to report one failure, for record 4,
  and six deliveries with their message ids. sendEmails.js sends the first two records
  and reports both as delivered under the id \<open>[object Promise]\<close>; and with the default
  concurrency, where all seven are sent, it reports all seven as delivered under that
  id, the failed record 4 among them.
\<close>

theorem init_reports_promises:
  "map_option (\<lambda>(evs, err). (attempted evs, reports evs, err))
     (init (example_input [(''CONCURRENCY'', ''2'')] seven_rows ''Hi'' (provider_failing ''d@x'' refused)))
   = Some ([Some ''a@x'', Some ''b@x''],
           [LogDelivered (JNum 1) 7 (Some ''a@x'') ''[object Promise]'',
            LogDelivered (JNum 2) 7 (Some ''b@x'') ''[object Promise]''],
           None)
   \<and> map_option (\<lambda>(evs, err). (reports evs, err))
       (init (example_input [] seven_rows ''Hi'' (provider_failing ''d@x'' refused)))
     = Some ([LogDelivered (JNum 1) 7 (Some ''a@x'') ''[object Promise]'',
              LogDelivered (JNum 2) 7 (Some ''b@x'') ''[object Promise]'',
              LogDelivered (JNum 3) 7 (Some ''c@x'') ''[object Promise]'',
              LogDelivered (JNum 4) 7 (Some ''d@x'') ''[object Promise]'',
              LogDelivered (JNum 5) 7 (Some ''e@x'') ''[object Promise]'',
              LogDelivered (JNum 6) 7 (Some ''f@x'') ''[object Promise]'',
              LogDelivered (JNum 7) 7 (Some ''g@x'') ''[object Promise]''],
             None)"
  by code_simp

text \<open>
  The variant that parses the settings and reports the resolved values does what is
  claimed: seven sends, one failure for record 4, six deliveries with their ids.
\<close>

lemma init_part_001_reports:
  "map_option (\<lambda>(evs, err). (attempted evs, reports evs, err))
     (init_part_001 (example_input [(''CONCURRENCY'', ''2'')] seven_rows ''Hi'' (provider_failing ''d@x'' refused)))
   = Some ([Some ''a@x'', Some ''b@x'', Some ''c@x'', Some ''d@x'', Some ''e@x'',
            Some ''f@x'', Some ''g@x''],
           [LogDelivered (JNum 1) 7 (Some ''a@x'') ''id-A'',
            LogDelivered (JNum 2) 7 (Some ''b@x'') ''id-B'',
            LogDelivered (JNum 3) 7 (Some ''c@x'') ''id-C'',
            LogFailed (JNum 4) 7 (Some ''d@x''),
            LogDelivered (JNum 5) 7 (Some ''e@x'') ''id-E'',
            LogDelivered (JNum 6) 7 (Some ''f@x'') ''id-F'',
            LogDelivered (JNum 7) 7 (Some ''g@x'') ''id-G''],
           None)"
  by code_simp

section \<open>Properties of the template check within init\<close>

text \<open>
  What the check returns, for every subject line, template and column list: the
  TypeError when the text has no token, the error that lists every unavailable token
  when there is one, and the used tokens otherwise.
\<close>

lemma check_template_cases:
  "check_template subj tmpl cols =
     (if scan_tokens (subj @ tmpl) = [] then Inl TypeError
      else if filter (\<lambda>t. \<not> token_available cols t) (scan_tokens (subj @ tmpl)) \<noteq> []
        then Inl (Error (unavailable_message
                 (filter (\<lambda>t. \<not> token_available cols t) (scan_tokens (subj @ tmpl)))))
      else Inr (scan_tokens (subj @ tmpl)))"
proof (cases "scan_tokens (subj @ tmpl)")
  case Nil
  then show ?thesis by (simp add: check_template_def js_match_def)
next
  case (Cons m ms)
  have "filter (\<lambda>t. \<not> token_available cols t) (m # ms) = [] \<Longrightarrow>
      filter (token_available cols) (m # ms) = m # ms"
    by (simp only: filter_empty_conv filter_id_conv) blast
  with Cons show ?thesis by (simp add: check_template_def js_match_def Let_def)
qed

text \<open>An unavailable token ends \<open>init\<close> before anything is sent, with all of them listed.\<close>

lemma init_unknown_tokens:
  "init (example_input [] three_rows ''@Phone@ or @Fax@, @Name@, @Phone@'' (provider_failing '''' Throws))
   = Some ([], Some (Error (unavailable_message [''@Phone@'', ''@Fax@'', ''@Phone@''])))"
  by code_simp

text \<open>
  C8. When every token matches a column, the validation is claimed to succeed. With
  the subject line \<open>Newsletter\<close> and the template \<open><p>Dear customer</p>\<close> no token
  is without a column, since there is no token at all, and \<open>init\<close> ends in the
  TypeError of the template check, before any send.
\<close>

theorem init_token_free_template:
  "filter (\<lambda>t. \<not> token_available [''Name'', ''Email''] t)
      (scan_tokens (''Newsletter'' @ ''<p>Dear customer</p>'')) = []
   \<and> init (example_input [(''SUBJECT_LINE'', ''Newsletter'')] three_rows ''<p>Dear customer</p>''
            (provider_failing '''' Throws))
     = Some ([], Some TypeError)"
  by code_simp

end
